theory Spec2Isabelle
  imports Main "HOL-Library.Sublist"
begin

section \<open>Python values used by ponder.py\<close>

subsection \<open>Decimal rendering of integers\<close>

text \<open>
  The f-strings of \<^verbatim>\<open>Ponder.compile\<close> render \<^verbatim>\<open>time\<close> and \<^verbatim>\<open>time * 2 + 1\<close> with
  Python's \<^verbatim>\<open>str\<close> on an unbounded integer: the decimal digits, most significant first,
  with a leading minus sign for a negative number.
\<close>

definition digit_char :: "nat \<Rightarrow> char" where
  "digit_char d = char_of (48 + d)"

function str_nat :: "nat \<Rightarrow> string" where
  "str_nat n = (if n < 10 then [digit_char n] else str_nat (n div 10) @ [digit_char (n mod 10)])"
  by pat_completeness auto
termination
  by (relation "measure id") auto

declare str_nat.simps [simp del]

definition str_int :: "int \<Rightarrow> string" where
  "str_int i = (if i < 0 then CHR ''-'' # str_nat (nat (- i)) else str_nat (nat i))"

text \<open>Reading a digit string back, used only to show that the rendering is injective.\<close>

definition nat_of_digits :: "string \<Rightarrow> nat" where
  "nat_of_digits s = foldl (\<lambda>a c. 10 * a + (of_char c - 48)) 0 s"

subsection \<open>Joining lines\<close>

text \<open>\<^verbatim>\<open>sep.join(xs)\<close> on a list of strings.\<close>

fun join :: "string \<Rightarrow> string list \<Rightarrow> string" where
  "join sep [] = []"
| "join sep [x] = x"
| "join sep (x # y # ys) = x @ sep @ join sep (y # ys)"

definition newline :: string where
  "newline = [CHR 0x0A]"

section \<open>Grouping the compiled commands (ponder.py, lines 159-166)\<close>

text \<open>
  \<^verbatim>\<open>functions\<close> is a Python dict from a time to a list of lines. A dict keeps its keys in
  insertion order and \<^verbatim>\<open>compile\<close> iterates over it twice, so it is an association list
  here: one entry per key, in insertion order.
\<close>

type_synonym function_table = "(int \<times> string list) list"

definition header :: string where
  "header = ''# Generated by creepe_ponder''"

text \<open>\<^verbatim>\<open>time in functions\<close>\<close>

definition has_key :: "function_table \<Rightarrow> int \<Rightarrow> bool" where
  "has_key fns t = (t \<in> set (map fst fns))"

text \<open>\<^verbatim>\<open>functions[time].append(command_str)\<close>, for a key that is present.\<close>

fun append_to :: "int \<Rightarrow> string \<Rightarrow> function_table \<Rightarrow> function_table" where
  "append_to t c [] = []"
| "append_to t c ((k, l) # fns) =
     (if k = t then (k, l @ [c]) # fns else (k, l) # append_to t c fns)"

text \<open>The body of the loop at lines 161-166.\<close>

definition add_command :: "function_table \<Rightarrow> int \<times> string \<Rightarrow> function_table" where
  "add_command fns command =
     (case command of (time, command_str) \<Rightarrow>
        if has_key fns time then append_to time command_str fns
        else fns @ [(time, [header, command_str])])"

definition group_commands :: "(int \<times> string) list \<Rightarrow> function_table" where
  "group_commands commands = foldl add_command [] commands"

text \<open>\<^verbatim>\<open>functions.keys()\<close> and \<^verbatim>\<open>functions[t]\<close> (a missing key is \<open>None\<close>).\<close>

definition keys :: "function_table \<Rightarrow> int list" where
  "keys fns = map fst fns"

definition bucket :: "function_table \<Rightarrow> int \<Rightarrow> string list option" where
  "bucket fns t = map_of fns t"

section \<open>The scheduling chain (ponder.py, lines 173-178)\<close>

text \<open>
  \<^verbatim>\<open>f"schedule function {ponder_name}:{time} {time * 2 + 1} append"\<close>
\<close>

definition schedule_line :: "string \<Rightarrow> int \<Rightarrow> string" where
  "schedule_line ponder_name time =
     ''schedule function '' @ ponder_name @ '':'' @ str_int time @ '' ''
       @ str_int (time * 2 + 1) @ '' append''"

text \<open>
  \<^verbatim>\<open>command_list = ['# Generated by creepe_ponder']\<close>, then one \<^verbatim>\<open>append\<close> for each key
  of \<^verbatim>\<open>functions\<close>, in the dict's order.
\<close>

definition main_command_list :: "string \<Rightarrow> function_table \<Rightarrow> string list" where
  "main_command_list ponder_name fns =
     foldl (\<lambda>command_list time. command_list @ [schedule_line ponder_name time])
       [header] (keys fns)"

text \<open>The text written to a bucket's file (line 171) and to main.mcfunction (line 181).\<close>

definition function_text :: "string list \<Rightarrow> string" where
  "function_text command_list = join newline command_list"

definition main_text :: "string \<Rightarrow> function_table \<Rightarrow> string" where
  "main_text ponder_name fns = join newline (main_command_list ponder_name fns)"

text \<open>
  The words of the specification, for comparison with the loop: the time values of a
  sequence in the order of their first occurrence, and the texts paired with one time.
\<close>

fun first_seen :: "int list \<Rightarrow> int list" where
  "first_seen [] = []"
| "first_seen (t # ts) = t # filter (\<lambda>u. u \<noteq> t) (first_seen ts)"

definition times_of :: "(int \<times> string) list \<Rightarrow> int list" where
  "times_of commands = map fst commands"

definition texts_at :: "int \<Rightarrow> (int \<times> string) list \<Rightarrow> string list" where
  "texts_at t commands = map snd (filter (\<lambda>p. fst p = t) commands)"

section \<open>Python objects and json.dumps\<close>

text \<open>
  A Python \<^verbatim>\<open>str\<close> that goes through \<^verbatim>\<open>json.dumps\<close> is a list of Unicode code points,
  since \<^verbatim>\<open>dumps\<close> (with the default \<^verbatim>\<open>ensure_ascii=True\<close>) escapes by code point.
  Every other string of the model (names, command texts, file contents) is a \<^typ>\<open>string\<close>.
\<close>

type_synonym unicode = "nat list"

definition ascii :: "string \<Rightarrow> unicode" where
  "ascii s = map of_char s"

datatype pyobj =
    PyInt int
  | PyBool bool
  | PyStr unicode
  | PyList "pyobj list"
  | PyDict "(unicode \<times> pyobj) list"

definition hex_char :: "nat \<Rightarrow> char" where
  "hex_char d = (if d < 10 then char_of (48 + d) else char_of (87 + d))"

definition hex4 :: "nat \<Rightarrow> string" where
  "hex4 n = map hex_char [n div 4096 mod 16, n div 256 mod 16, n div 16 mod 16, n mod 16]"

definition backslash :: char where
  "backslash = CHR 0x5C"

definition dquote :: char where
  "dquote = CHR 0x22"

text \<open>
  \<^verbatim>\<open>json.encoder.py_encode_basestring_ascii\<close>: the short escapes, printable ASCII as
  it is, any other code point as \<^verbatim>\<open>\uXXXX\<close> (a surrogate pair above the basic plane).
\<close>

definition escape_code_point :: "nat \<Rightarrow> string" where
  "escape_code_point n =
     (if n = 0x22 then [backslash, dquote]
      else if n = 0x5C then [backslash, backslash]
      else if n = 0x0A then [backslash, CHR ''n'']
      else if n = 0x0D then [backslash, CHR ''r'']
      else if n = 0x09 then [backslash, CHR ''t'']
      else if n = 0x08 then [backslash, CHR ''b'']
      else if n = 0x0C then [backslash, CHR ''f'']
      else if 0x20 \<le> n \<and> n \<le> 0x7E then [char_of n]
      else if n < 0x10000 then backslash # CHR ''u'' # hex4 n
      else backslash # CHR ''u'' # hex4 (0xD800 + (n - 0x10000) div 1024 mod 1024)
             @ backslash # CHR ''u'' # hex4 (0xDC00 + (n - 0x10000) mod 1024))"

definition dumps_str :: "unicode \<Rightarrow> string" where
  "dumps_str s = dquote # concat (map escape_code_point s) @ [dquote]"

fun dumps :: "pyobj \<Rightarrow> string"
  and dumps_list :: "pyobj list \<Rightarrow> string list"
  and dumps_items :: "(unicode \<times> pyobj) list \<Rightarrow> string list" where
  "dumps (PyInt i) = str_int i"
| "dumps (PyBool b) = (if b then ''true'' else ''false'')"
| "dumps (PyStr s) = dumps_str s"
| "dumps (PyList xs) = ''['' @ join '', '' (dumps_list xs) @ '']''"
| "dumps (PyDict kvs) = ''{'' @ join '', '' (dumps_items kvs) @ ''}''"
| "dumps_list [] = []"
| "dumps_list (x # xs) = dumps x # dumps_list xs"
| "dumps_items [] = []"
| "dumps_items ((k, v) # kvs) = (dumps_str k @ '': '' @ dumps v) # dumps_items kvs"

section \<open>The Ponder object (ponder.py, lines 10-107)\<close>

type_synonym pos = "int \<times> int \<times> int"

type_synonym pydict = "(unicode \<times> pyobj) list"

text \<open>
  The records appended to \<^verbatim>\<open>self.commands\<close> are dicts with a \<^verbatim>\<open>'type'\<close> key; each
  constructor below is one value of that key, with the other keys as its arguments in
  the order of the source.
\<close>

datatype operation =
    Place int pos string pydict pydict
  | Remove int pos string
  | Text int pos string "int list" int
  | Entity int pos string pydict
  | Command int string

record ponder =
  size_p :: int
  commands :: "operation list"

datatype level = DEBUG | INFO | WARNING | CRITICAL

datatype message =
    SizeNotMultipleOf3
  | Compiling
  | Arguments bool pos string "string list"
  | ArchiveExists string
  | Cancelled
  | Finished nat nat int "string list"

section \<open>Exceptions, the file system and the log\<close>

datatype exn =
    FileExistsError
  | FileNotFoundError
  | NotADirectoryError
  | IsADirectoryError
  | ValueError
  | OtherError string

text \<open>
  A path is the list of its components below the process's working directory; \<open>[]\<close> is
  the working directory itself, which exists and is a directory. \<^verbatim>\<open>ponder_name\<close> is one
  component. A zip archive holds a snapshot of a tree, by path relative to its root.
\<close>

type_synonym path = "string list"

datatype node = Dir | File string | Zip "path \<Rightarrow> node option"

type_synonym filesystem = "path \<Rightarrow> node option"

record world =
  files :: filesystem
  logged :: "(level \<times> message) list"

type_synonym 'a action = "world \<Rightarrow> (exn + 'a) \<times> world"

definition succeed :: "'a \<Rightarrow> 'a action" where
  "succeed x = (\<lambda>w. (Inr x, w))"

definition raise :: "exn \<Rightarrow> 'a action" where
  "raise e = (\<lambda>w. (Inl e, w))"

text \<open>Sequencing: an exception of the first action ends the run in the state it left.\<close>

definition then_run :: "'a action \<Rightarrow> ('a \<Rightarrow> 'b action) \<Rightarrow> 'b action" where
  "then_run a f = (\<lambda>w. case a w of (Inl e, w') \<Rightarrow> (Inl e, w') | (Inr x, w') \<Rightarrow> f x w')"

fun run_all :: "unit action list \<Rightarrow> unit action" where
  "run_all [] = succeed ()"
| "run_all (a # as) = then_run a (\<lambda>_. run_all as)"

definition log_msg :: "level \<Rightarrow> message \<Rightarrow> unit action" where
  "log_msg l m = (\<lambda>w. (Inr (), w\<lparr>logged := logged w @ [(l, m)]\<rparr>))"

text \<open>A file-system call that changes nothing when it raises.\<close>

definition on_files :: "(filesystem \<Rightarrow> exn + filesystem) \<Rightarrow> unit action" where
  "on_files f = (\<lambda>w. case f (files w) of
       Inl e \<Rightarrow> (Inl e, w)
     | Inr fs' \<Rightarrow> (Inr (), w\<lparr>files := fs'\<rparr>))"

definition node_at :: "filesystem \<Rightarrow> path \<Rightarrow> node option" where
  "node_at fs p = (if p = [] then Some Dir else fs p)"

text \<open>\<^verbatim>\<open>os.path.exists\<close> and \<^verbatim>\<open>Path.exists\<close>\<close>

definition path_exists :: "filesystem \<Rightarrow> path \<Rightarrow> bool" where
  "path_exists fs p = (node_at fs p \<noteq> None)"

definition is_dir :: "filesystem \<Rightarrow> path \<Rightarrow> bool" where
  "is_dir fs p = (node_at fs p = Some Dir)"

text \<open>\<^verbatim>\<open>os.mkdir\<close>\<close>

definition os_mkdir :: "path \<Rightarrow> filesystem \<Rightarrow> exn + filesystem" where
  "os_mkdir p fs =
     (if node_at fs p \<noteq> None then Inl FileExistsError
      else case node_at fs (butlast p) of
             None \<Rightarrow> Inl FileNotFoundError
           | Some Dir \<Rightarrow> Inr (fs(p \<mapsto> Dir))
           | Some _ \<Rightarrow> Inl NotADirectoryError)"

text \<open>
  \<^verbatim>\<open>Path.mkdir(parents=True, exist_ok=exist_ok)\<close>: try \<^verbatim>\<open>os.mkdir\<close>; on FileNotFoundError
  make the parent with \<^verbatim>\<open>exist_ok=True\<close> and try once more; any other error is raised
  again unless \<^verbatim>\<open>exist_ok\<close> holds and the path is a directory.
\<close>

function mkdir :: "bool \<Rightarrow> path \<Rightarrow> filesystem \<Rightarrow> exn + filesystem" where
  "mkdir exist_ok p fs =
     (case os_mkdir p fs of
        Inr fs' \<Rightarrow> Inr fs'
      | Inl e \<Rightarrow>
          if e = FileNotFoundError then
            (if p = [] then Inl e
             else case mkdir True (butlast p) fs of
                    Inl e' \<Rightarrow> Inl e'
                  | Inr fs1 \<Rightarrow>
                      (case os_mkdir p fs1 of
                         Inr fs2 \<Rightarrow> Inr fs2
                       | Inl e2 \<Rightarrow>
                           if e2 \<noteq> FileNotFoundError \<and> exist_ok \<and> is_dir fs1 p
                           then Inr fs1 else Inl e2))
          else if exist_ok \<and> is_dir fs p then Inr fs else Inl e)"
  by pat_completeness auto
termination
  by (relation "measure (\<lambda>(exist_ok, p, fs). length p)") auto

declare mkdir.simps [simp del]

text \<open>\<^verbatim>\<open>Path.write_text\<close>: creates or replaces a file in an existing directory.\<close>

definition write_text :: "path \<Rightarrow> string \<Rightarrow> filesystem \<Rightarrow> exn + filesystem" where
  "write_text p s fs =
     (case node_at fs (butlast p) of
        None \<Rightarrow> Inl FileNotFoundError
      | Some Dir \<Rightarrow> if node_at fs p = Some Dir then Inl IsADirectoryError
                    else Inr (fs(p \<mapsto> File s))
      | Some _ \<Rightarrow> Inl NotADirectoryError)"

text \<open>\<^verbatim>\<open>shutil.rmtree\<close>: removes a directory and everything below it.\<close>

definition rmtree :: "path \<Rightarrow> filesystem \<Rightarrow> exn + filesystem" where
  "rmtree root fs =
     (case node_at fs root of
        None \<Rightarrow> Inl FileNotFoundError
      | Some Dir \<Rightarrow> Inr (\<lambda>p. if prefix root p then None else fs p)
      | Some _ \<Rightarrow> Inl NotADirectoryError)"

text \<open>
  \<^verbatim>\<open>shutil.make_archive(base, "zip", root)\<close> writes \<^verbatim>\<open>base + ".zip"\<close> from the tree below
  \<^verbatim>\<open>root\<close>. Whether the archiver fails (a full disk, a permission) is decided outside
  the program, so it is an input: when it fails it raises and may leave something at
  the archive's path.
\<close>

datatype archive_outcome = ArchiveWritten | ArchiveFails exn "node option"

definition zip_path :: "path \<Rightarrow> path" where
  "zip_path base = butlast base @ [last base @ ''.zip'']"

definition subtree :: "filesystem \<Rightarrow> path \<Rightarrow> path \<Rightarrow> node option" where
  "subtree fs root = (\<lambda>q. if q = [] then None else fs (root @ q))"

definition make_archive :: "archive_outcome \<Rightarrow> path \<Rightarrow> path \<Rightarrow> unit action" where
  "make_archive outcome base root =
     (\<lambda>w. case outcome of
        ArchiveWritten \<Rightarrow>
          (Inr (), w\<lparr>files := (files w)(zip_path base \<mapsto> Zip (subtree (files w) root))\<rparr>)
      | ArchiveFails e left \<Rightarrow>
          (Inl e, case left of
                    None \<Rightarrow> w
                  | Some n \<Rightarrow> w\<lparr>files := (files w)(zip_path base \<mapsto> n)\<rparr>))"

text \<open>\<^verbatim>\<open>str.lower\<close> on the ASCII letters, and \<^verbatim>\<open>max\<close> of a sequence of integers.\<close>

definition lower_char :: "char \<Rightarrow> char" where
  "lower_char c =
     (if 65 \<le> (of_char c :: nat) \<and> (of_char c :: nat) \<le> 90 then char_of (of_char c + 32 :: nat)
      else c)"

definition lower :: "string \<Rightarrow> string" where
  "lower s = map lower_char s"

fun py_max :: "int list \<Rightarrow> exn + int" where
  "py_max [] = Inl ValueError"
| "py_max (x # xs) = Inr (fold max xs x)"

section \<open>Ponder.__init__ and the recording methods (ponder.py, lines 13-107)\<close>

definition Ponder :: "int \<Rightarrow> ponder action" where
  "Ponder sz =
     then_run
       (if sz > 8 \<and> sz mod 3 \<noteq> 0 then log_msg CRITICAL SizeNotMultipleOf3
        else succeed ())
       (\<lambda>_. succeed \<lparr>size_p = sz, commands = []\<rparr>)"

definition block_op :: "ponder \<Rightarrow> int \<Rightarrow> pos \<Rightarrow> string \<Rightarrow> pydict \<Rightarrow> pydict \<Rightarrow> ponder" where
  "block_op self time p block state nbt =
     self\<lparr>commands := commands self @ [Place time p block state nbt]\<rparr>"

definition remove_op :: "ponder \<Rightarrow> int \<Rightarrow> pos \<Rightarrow> string \<Rightarrow> ponder" where
  "remove_op self time p animation =
     self\<lparr>commands := commands self @ [Remove time p animation]\<rparr>"

definition text_op :: "ponder \<Rightarrow> int \<Rightarrow> pos \<Rightarrow> string \<Rightarrow> int \<Rightarrow> int list \<Rightarrow> ponder" where
  "text_op self time p txt duration rotation =
     self\<lparr>commands := commands self @ [Text time p txt rotation duration]\<rparr>"

definition entity_op :: "ponder \<Rightarrow> int \<Rightarrow> pos \<Rightarrow> string \<Rightarrow> pydict \<Rightarrow> ponder" where
  "entity_op self time p name nbt =
     self\<lparr>commands := commands self @ [Entity time p name nbt]\<rparr>"

definition command_op :: "ponder \<Rightarrow> int \<Rightarrow> string \<Rightarrow> ponder" where
  "command_op self time cmd = self\<lparr>commands := commands self @ [Command time cmd]\<rparr>"

section \<open>Ponder.compile (ponder.py, lines 109-190)\<close>

text \<open>\<^verbatim>\<open>Path(output_dir) / ponder_name\<close>\<close>

definition datapack_dir :: "path \<Rightarrow> string \<Rightarrow> path" where
  "datapack_dir output_dir ponder_name = output_dir @ [ponder_name]"

text \<open>\<^verbatim>\<open>f'{output_dir}/{ponder_name}.zip'\<close>\<close>

definition archive_file :: "path \<Rightarrow> string \<Rightarrow> path" where
  "archive_file output_dir ponder_name = output_dir @ [ponder_name @ ''.zip'']"

text \<open>
  \<^verbatim>\<open>(datapack_dir / f"data/{ponder_name}") / ("function" if version else "functions")\<close>
\<close>

definition function_dir :: "bool \<Rightarrow> path \<Rightarrow> string \<Rightarrow> path" where
  "function_dir version output_dir ponder_name =
     datapack_dir output_dir ponder_name
       @ [''data'', ponder_name, if version then ''function'' else ''functions'']"

text \<open>The description is the text of line 149, by code point.\<close>

definition description :: unicode where
  "description = [0x4F7F, 0x7528] @ ascii '' creepe_ponder ''
     @ [0x751F, 0x6210, 0x7684, 0x601D, 0x7D22, 0x6570, 0x636E, 0x5305]"

definition meta_data :: pyobj where
  "meta_data = PyDict [(ascii ''pack'', PyDict
     [(ascii ''pack_format'', PyInt 16),
      (ascii ''supported_formats'', PyList [PyInt 16, PyInt 39]),
      (ascii ''description'', PyStr description)])]"

text \<open>\<^verbatim>\<open>f"_{time}.mcfunction"\<close>\<close>

definition function_file :: "int \<Rightarrow> string" where
  "function_file time = ''_'' @ str_int time @ ''.mcfunction''"

text \<open>An exception of a pure computation, and the guard of line 141.\<close>

definition result_of :: "exn + 'a \<Rightarrow> 'a action" where
  "result_of r = (\<lambda>w. (r, w))"

definition unless_exists :: "path \<Rightarrow> unit action \<Rightarrow> unit action" where
  "unless_exists p a = (\<lambda>w. if path_exists (files w) p then (Inr (), w) else a w)"

text \<open>Lines 168-171: one file for each item of \<^verbatim>\<open>functions\<close>, in the dict's order.\<close>

definition write_functions :: "path \<Rightarrow> function_table \<Rightarrow> unit action" where
  "write_functions fdir fns =
     run_all (map (\<lambda>(time, command_list).
        on_files (write_text (fdir @ [function_file time]) (function_text command_list))) fns)"

text \<open>Lines 140-181: the working tree.\<close>

definition write_datapack :: "bool \<Rightarrow> string \<Rightarrow> path \<Rightarrow> (int \<times> string) list \<Rightarrow> unit action"
  where
  "write_datapack version ponder_name output_dir cmds =
     run_all
       [unless_exists (datapack_dir output_dir ponder_name)
          (on_files (mkdir False (datapack_dir output_dir ponder_name))),
        on_files (write_text (datapack_dir output_dir ponder_name @ [''pack.mcmeta''])
          (dumps meta_data)),
        on_files (mkdir False (function_dir version output_dir ponder_name)),
        write_functions (function_dir version output_dir ponder_name) (group_commands cmds),
        on_files (write_text (function_dir version output_dir ponder_name @ [''main.mcfunction''])
          (main_text ponder_name (group_commands cmds)))]"

text \<open>
  Lines 189-190: the f-string of the summary evaluates \<^verbatim>\<open>max(functions.keys())\<close>, which
  raises ValueError on no keys. (The message prints that maximum divided by 20, a float;
  the log entry keeps the maximum.)
\<close>

definition summary :: "string \<Rightarrow> path \<Rightarrow> (int \<times> string) list \<Rightarrow> unit action" where
  "summary ponder_name output_dir cmds =
     then_run (result_of (py_max (keys (group_commands cmds))))
       (\<lambda>longest. log_msg INFO
          (Finished (length (group_commands cmds)) (length cmds) longest
             (archive_file output_dir ponder_name)))"

text \<open>
  Lines 138-190. \<^verbatim>\<open>compile_operations\<close> is imported from a module that is not part of
  this file, so it is a parameter: given the object and the offset it returns the
  (time, text) pairs or raises. The function has no \<^verbatim>\<open>return\<close> statement after the
  summary: it returns \<^verbatim>\<open>None\<close>.
\<close>

definition build ::
  "(ponder \<Rightarrow> pos \<Rightarrow> exn + (int \<times> string) list) \<Rightarrow> archive_outcome
     \<Rightarrow> ponder \<Rightarrow> bool \<Rightarrow> pos \<Rightarrow> string \<Rightarrow> path \<Rightarrow> path option action" where
  "build compile_operations outcome self version pos_offset ponder_name output_dir =
     then_run (result_of (compile_operations self pos_offset)) (\<lambda>cmds.
     then_run (run_all
       [write_datapack version ponder_name output_dir cmds,
        make_archive outcome (datapack_dir output_dir ponder_name)
          (datapack_dir output_dir ponder_name),
        on_files (rmtree (datapack_dir output_dir ponder_name)),
        summary ponder_name output_dir cmds]) (\<lambda>_.
     succeed None))"

text \<open>
  The whole method. \<^verbatim>\<open>answer\<close> is the line that \<^verbatim>\<open>input()\<close> returns; it is read only
  when the archive exists.
\<close>

definition compile ::
  "(ponder \<Rightarrow> pos \<Rightarrow> exn + (int \<times> string) list) \<Rightarrow> string \<Rightarrow> archive_outcome
     \<Rightarrow> ponder \<Rightarrow> bool \<Rightarrow> pos \<Rightarrow> string \<Rightarrow> path \<Rightarrow> path option action" where
  "compile compile_operations answer outcome self version pos_offset ponder_name output_dir =
     then_run (log_msg INFO Compiling) (\<lambda>_.
     then_run (log_msg DEBUG (Arguments version pos_offset ponder_name output_dir)) (\<lambda>_.
     (\<lambda>w. if path_exists (files w) (archive_file output_dir ponder_name) then
             then_run (log_msg WARNING (ArchiveExists ponder_name)) (\<lambda>_.
               if lower answer \<noteq> ''y'' then
                 then_run (log_msg INFO Cancelled) (\<lambda>_. succeed None)
               else build compile_operations outcome self version pos_offset
                      ponder_name output_dir) w
           else build compile_operations outcome self version pos_offset
                  ponder_name output_dir w)))"

section \<open>Closed forms of the file system, used in the proofs\<close>

text \<open>
  What the loop of lines 168-171 writes, as (path, node) pairs in the order of the loop.
\<close>

definition function_entries :: "path \<Rightarrow> function_table \<Rightarrow> (path \<times> node) list" where
  "function_entries fdir fns =
     map (\<lambda>(time, command_list).
        (fdir @ [function_file time], File (function_text command_list))) fns"

text \<open>
  The file system that lines 140-181 leave when nothing exists yet at the datapack
  directory (\<open>write_datapack_fresh\<close> below proves it against \<open>write_datapack\<close>).
\<close>

definition datapack_tree ::
  "bool \<Rightarrow> string \<Rightarrow> path \<Rightarrow> (int \<times> string) list \<Rightarrow> filesystem \<Rightarrow> filesystem" where
  "datapack_tree version ponder_name output_dir cmds fs =
     ((fs(datapack_dir output_dir ponder_name \<mapsto> Dir,
          datapack_dir output_dir ponder_name @ [''pack.mcmeta''] \<mapsto> File (dumps meta_data),
          datapack_dir output_dir ponder_name @ [''data''] \<mapsto> Dir,
          datapack_dir output_dir ponder_name @ [''data'', ponder_name] \<mapsto> Dir,
          function_dir version output_dir ponder_name \<mapsto> Dir))
        ++ map_of (rev (function_entries (function_dir version output_dir ponder_name)
                          (group_commands cmds))))
       (function_dir version output_dir ponder_name @ [''main.mcfunction'']
          \<mapsto> File (main_text ponder_name (group_commands cmds)))"

text \<open>
  The usual starting point: the output directory is a directory and nothing exists at
  or below the datapack directory.
\<close>

definition fresh_target :: "filesystem \<Rightarrow> path \<Rightarrow> string \<Rightarrow> bool" where
  "fresh_target fs output_dir ponder_name =
     (node_at fs output_dir = Some Dir
      \<and> (\<forall>p. prefix (datapack_dir output_dir ponder_name) p \<longrightarrow> fs p = None))"

text \<open>
  The file system after the archive is written and the working tree is removed
  (\<open>build_fresh\<close> below proves it against \<open>build\<close>).
\<close>

definition packed_files ::
  "bool \<Rightarrow> string \<Rightarrow> path \<Rightarrow> (int \<times> string) list \<Rightarrow> filesystem \<Rightarrow> filesystem" where
  "packed_files version ponder_name output_dir cmds fs =
     (\<lambda>p. if prefix (datapack_dir output_dir ponder_name) p then None
          else ((datapack_tree version ponder_name output_dir cmds fs)
                  (archive_file output_dir ponder_name \<mapsto>
                     Zip (subtree (datapack_tree version ponder_name output_dir cmds fs)
                            (datapack_dir output_dir ponder_name)))) p)"



text \<open>The characters that \<open>str_nat\<close> produces.\<close>

definition is_digit :: "char \<Rightarrow> bool" where
  "is_digit c = (48 \<le> (of_char c :: nat) \<and> (of_char c :: nat) \<le> 57)"

section \<open>Properties of the rendering of integers\<close>

lemma of_char_digit_char: "d < 10 \<Longrightarrow> of_char (digit_char d) = 48 + d"
  by (simp add: digit_char_def)

lemma nat_of_digits_snoc:
  "nat_of_digits (s @ [c]) = 10 * nat_of_digits s + (of_char c - 48)"
  by (simp add: nat_of_digits_def)

lemma nat_of_digits_str_nat: "nat_of_digits (str_nat n) = n"
proof (induction n rule: str_nat.induct)
  case (1 n)
  show ?case
  proof (cases "n < 10")
    case True
    then show ?thesis
      by (simp add: str_nat.simps [of n] nat_of_digits_def of_char_digit_char)
  next
    case False
    with "1" have "nat_of_digits (str_nat (n div 10)) = n div 10" by simp
    with False show ?thesis
      by (simp add: str_nat.simps [of n] nat_of_digits_snoc of_char_digit_char)
  qed
qed

lemma str_nat_inj: "str_nat m = str_nat n \<Longrightarrow> m = n"
  by (metis nat_of_digits_str_nat)

lemma is_digit_digit_char: "d < 10 \<Longrightarrow> is_digit (digit_char d)"
  by (simp add: is_digit_def of_char_digit_char)

lemma str_nat_digits: "c \<in> set (str_nat n) \<Longrightarrow> is_digit c"
proof (induction n rule: str_nat.induct)
  case (1 n)
  show ?case
  proof (cases "n < 10")
    case True
    with "1.prems" show ?thesis
      by (simp add: str_nat.simps [of n] is_digit_digit_char)
  next
    case False
    with "1.prems" have "c \<in> set (str_nat (n div 10)) \<or> c = digit_char (n mod 10)"
      by (auto simp: str_nat.simps [of n])
    with False "1.IH" show ?thesis
      by (auto simp: is_digit_digit_char)
  qed
qed

lemma str_nat_not_Nil: "str_nat n \<noteq> []"
  by (simp add: str_nat.simps [of n])

lemma minus_not_digit: "\<not> is_digit (CHR ''-'')"
  by (simp add: is_digit_def)

lemma space_not_digit: "\<not> is_digit (CHR '' '')"
  by (simp add: is_digit_def)

lemma str_nat_no_minus: "str_nat n \<noteq> CHR ''-'' # s"
proof
  assume "str_nat n = CHR ''-'' # s"
  then have "CHR ''-'' \<in> set (str_nat n)" by simp
  then show False using str_nat_digits minus_not_digit by blast
qed

lemma str_int_inj: "str_int i = str_int j \<Longrightarrow> i = j"
proof -
  assume eq: "str_int i = str_int j"
  consider "i < 0" "j < 0" | "i < 0" "\<not> j < 0" | "\<not> i < 0" "j < 0" | "\<not> i < 0" "\<not> j < 0"
    by blast
  then show "i = j"
  proof cases
    case 1
    with eq have "str_nat (nat (- i)) = str_nat (nat (- j))" by (simp add: str_int_def)
    then have "nat (- i) = nat (- j)" by (rule str_nat_inj)
    with 1 show ?thesis by simp
  next
    case 2
    with eq have "str_nat (nat j) = CHR ''-'' # str_nat (nat (- i))"
      by (simp add: str_int_def)
    then show ?thesis using str_nat_no_minus by blast
  next
    case 3
    with eq have "str_nat (nat i) = CHR ''-'' # str_nat (nat (- j))"
      by (simp add: str_int_def)
    then show ?thesis using str_nat_no_minus by blast
  next
    case 4
    with eq have "str_nat (nat i) = str_nat (nat j)" by (simp add: str_int_def)
    then have "nat i = nat j" by (rule str_nat_inj)
    with 4 show ?thesis by simp
  qed
qed

lemma str_int_no_space: "CHR '' '' \<notin> set (str_int i)"
proof
  assume "CHR '' '' \<in> set (str_int i)"
  then have "CHR '' '' = CHR ''-'' \<or> is_digit (CHR '' '')"
    by (auto simp: str_int_def split: if_splits dest: str_nat_digits)
  then show False by (simp add: space_not_digit)
qed

lemma first_separator:
  assumes "x \<notin> set xs" and "x \<notin> set xs'" and "xs @ x # ys = xs' @ x # ys'"
  shows "xs = xs'"
proof -
  have "takeWhile (\<lambda>c. c \<noteq> x) (xs @ x # ys) = xs" using assms(1)
    by (induction xs) auto
  moreover have "takeWhile (\<lambda>c. c \<noteq> x) (xs' @ x # ys') = xs'" using assms(2)
    by (induction xs') auto
  ultimately show ?thesis using assms(3) by simp
qed

lemma schedule_line_inj:
  assumes "schedule_line name s = schedule_line name t"
  shows "s = t"
proof -
  from assms have "str_int s @ CHR '' '' # (str_int (s * 2 + 1) @ '' append'')
      = str_int t @ CHR '' '' # (str_int (t * 2 + 1) @ '' append'')"
    by (simp add: schedule_line_def)
  then have "str_int s = str_int t"
    using str_int_no_space [of s] str_int_no_space [of t]
    by (rule first_separator [rotated 2])
  then show ?thesis by (rule str_int_inj)
qed

lemma header_not_schedule_line: "schedule_line name t \<noteq> header"
  by (simp add: schedule_line_def header_def)

section \<open>Properties of the grouping loop\<close>

lemma keys_append_to: "map fst (append_to t c fns) = map fst fns"
  by (induction t c fns rule: append_to.induct) auto

lemma map_of_append_to:
  "map_of (append_to t c fns) k =
     (if k = t then map_option (\<lambda>l. l @ [c]) (map_of fns t) else map_of fns k)"
  by (induction t c fns rule: append_to.induct) auto

lemma group_commands_Nil: "group_commands [] = []"
  by (simp add: group_commands_def)

lemma group_commands_snoc:
  "group_commands (cs @ [x]) = add_command (group_commands cs) x"
  by (simp add: group_commands_def)

lemma first_seen_snoc:
  "first_seen (ts @ [t]) = (if t \<in> set ts then first_seen ts else first_seen ts @ [t])"
  by (induction ts) auto

lemma set_first_seen: "set (first_seen ts) = set ts"
  by (induction ts) auto

lemma distinct_first_seen: "distinct (first_seen ts)"
  by (induction ts) auto

lemma sorted_first_seen: "sorted ts \<Longrightarrow> sorted (first_seen ts)"
  by (induction ts) (auto simp: set_first_seen sorted_wrt_filter)

lemma keys_add_command:
  "keys (add_command fns (t, c)) = (if t \<in> set (keys fns) then keys fns else keys fns @ [t])"
  by (simp add: add_command_def has_key_def keys_def keys_append_to)

lemma keys_group_commands: "keys (group_commands cs) = first_seen (times_of cs)"
proof (induction cs rule: rev_induct)
  case Nil
  show ?case by (simp add: group_commands_Nil keys_def times_of_def)
next
  case (snoc x cs)
  obtain t c where x: "x = (t, c)" by (cases x)
  have "times_of (cs @ [x]) = times_of cs @ [t]"
    by (simp add: times_of_def x)
  with snoc show ?case
    by (simp add: group_commands_snoc x keys_add_command first_seen_snoc set_first_seen)
qed

lemma bucket_add_command_old:
  assumes "t \<in> set (keys fns)"
  shows "bucket (add_command fns (t, c)) k =
     (if k = t then map_option (\<lambda>l. l @ [c]) (bucket fns t) else bucket fns k)"
  using assms
  by (simp add: add_command_def has_key_def keys_def bucket_def map_of_append_to)

lemma bucket_add_command_new:
  assumes "t \<notin> set (keys fns)"
  shows "bucket (add_command fns (t, c)) k =
     (if k = t then Some [header, c] else bucket fns k)"
proof -
  from assms have "map_of fns t = None"
    by (simp add: keys_def map_of_eq_None_iff)
  with assms show ?thesis
    by (auto simp: add_command_def has_key_def keys_def bucket_def map_add_def
        split: option.splits)
qed

lemma texts_at_snoc:
  "texts_at k (cs @ [(t, c)]) = (if t = k then texts_at k cs @ [c] else texts_at k cs)"
  by (simp add: texts_at_def)

lemma bucket_group_commands:
  "bucket (group_commands cs) k =
     (if k \<in> set (times_of cs) then Some (header # texts_at k cs) else None)"
proof (induction cs rule: rev_induct)
  case Nil
  show ?case by (simp add: group_commands_Nil bucket_def times_of_def)
next
  case (snoc x cs)
  obtain t c where x: "x = (t, c)" by (cases x)
  have times: "set (times_of (cs @ [x])) = insert t (set (times_of cs))"
    by (simp add: times_of_def x)
  have known: "t \<in> set (keys (group_commands cs)) \<longleftrightarrow> t \<in> set (times_of cs)"
    by (simp add: keys_group_commands set_first_seen)
  show ?case
  proof (cases "t \<in> set (times_of cs)")
    case True
    with known have "t \<in> set (keys (group_commands cs))" by simp
    then have "bucket (group_commands (cs @ [x])) k =
        (if k = t then map_option (\<lambda>l. l @ [c]) (bucket (group_commands cs) t)
         else bucket (group_commands cs) k)"
      by (simp add: group_commands_snoc x bucket_add_command_old)
    with True snoc times show ?thesis
      by (auto simp: x texts_at_snoc)
  next
    case False
    with known have "t \<notin> set (keys (group_commands cs))" by simp
    then have "bucket (group_commands (cs @ [x])) k =
        (if k = t then Some [header, c] else bucket (group_commands cs) k)"
      by (simp add: group_commands_snoc x bucket_add_command_new)
    moreover from False have "texts_at t cs = []"
      by (auto simp: texts_at_def times_of_def filter_empty_conv)
    ultimately show ?thesis using False snoc times
      by (auto simp: x texts_at_snoc)
  qed
qed

lemma length_group_commands:
  "length (group_commands cs) = card (set (times_of cs))"
proof -
  have "length (group_commands cs) = length (keys (group_commands cs))"
    by (simp add: keys_def)
  also have "\<dots> = card (set (first_seen (times_of cs)))"
    by (simp add: keys_group_commands distinct_card distinct_first_seen)
  finally show ?thesis by (simp add: set_first_seen)
qed

lemma main_command_list_eq:
  "main_command_list name fns = header # map (schedule_line name) (keys fns)"
proof -
  have "foldl (\<lambda>l t. l @ [schedule_line name t]) acc ks = acc @ map (schedule_line name) ks"
    for acc ks
    by (induction ks arbitrary: acc) auto
  then show ?thesis by (simp add: main_command_list_def)
qed

lemma count_list_map_inj:
  assumes "\<And>a b. f a = f b \<Longrightarrow> a = b"
  shows "count_list (map f xs) (f x) = count_list xs x"
  using assms by (induction xs) auto

lemma count_list_distinct: "distinct xs \<Longrightarrow> x \<in> set xs \<Longrightarrow> count_list xs x = 1"
  by (induction xs) (auto simp: count_list_0_iff)

lemma join_header:
  "ls \<noteq> [] \<Longrightarrow> join sep (h # ls) = h @ sep @ join sep ls"
  by (cases ls) auto

lemma join_lines: "join [c] (x # xs) = x @ concat (map (\<lambda>y. c # y) xs)"
  by (induction xs arbitrary: x) auto

lemma texts_at_not_Nil: "t \<in> set (times_of cs) \<Longrightarrow> texts_at t cs \<noteq> []"
  by (auto simp: texts_at_def times_of_def filter_empty_conv)

section \<open>Properties of the file-system steps\<close>

lemma then_run_ok: "a w = (Inr x, w') \<Longrightarrow> then_run a f w = f x w'"
  by (simp add: then_run_def)

lemma then_run_raise: "a w = (Inl e, w') \<Longrightarrow> then_run a f w = (Inl e, w')"
  by (simp add: then_run_def)

lemma on_files_ok: "f (files w) = Inr fs' \<Longrightarrow> on_files f w = (Inr (), w\<lparr>files := fs'\<rparr>)"
  by (simp add: on_files_def)

lemma mkdir_leaf:
  assumes "node_at fs p = None" and "node_at fs (butlast p) = Some Dir"
  shows "mkdir ok p fs = Inr (fs(p \<mapsto> Dir))"
  using assms by (simp add: mkdir.simps [of ok p fs] os_mkdir_def)

lemma mkdir_below:
  assumes "p \<noteq> []" and "node_at fs p = None" and "node_at fs (butlast p) = None"
    and "mkdir True (butlast p) fs = Inr fs1"
    and "node_at fs1 p = None" and "node_at fs1 (butlast p) = Some Dir"
  shows "mkdir ok p fs = Inr (fs1(p \<mapsto> Dir))"
  using assms by (simp add: mkdir.simps [of ok p fs] os_mkdir_def)

lemma write_text_ok:
  assumes "node_at fs (butlast p) = Some Dir" and "node_at fs p \<noteq> Some Dir"
  shows "write_text p s fs = Inr (fs(p \<mapsto> File s))"
  using assms by (simp add: write_text_def)

lemma write_functions_ok:
  assumes "fdir \<noteq> []" and "files w fdir = Some Dir"
    and "\<forall>t l. (t, l) \<in> set fns \<longrightarrow> files w (fdir @ [function_file t]) \<noteq> Some Dir"
  shows "write_functions fdir fns w =
     (Inr (), w\<lparr>files := files w ++ map_of (rev (function_entries fdir fns))\<rparr>)"
  using assms
proof (induction fns arbitrary: w)
  case Nil
  then show ?case
    by (simp add: write_functions_def function_entries_def succeed_def)
next
  case (Cons x fns)
  obtain t l where x: "x = (t, l)" by (cases x)
  let ?p = "fdir @ [function_file t]"
  let ?w1 = "w\<lparr>files := (files w)(?p \<mapsto> File (function_text l))\<rparr>"
  have "write_text ?p (function_text l) (files w)
      = Inr ((files w)(?p \<mapsto> File (function_text l)))"
    using Cons.prems by (intro write_text_ok) (auto simp: node_at_def x)
  then have first: "on_files (write_text ?p (function_text l)) w = (Inr (), ?w1)"
    by (rule on_files_ok)
  have rest: "write_functions fdir fns ?w1 =
     (Inr (), ?w1\<lparr>files := files ?w1 ++ map_of (rev (function_entries fdir fns))\<rparr>)"
    using Cons.prems by (intro Cons.IH) (auto simp: x split: if_splits)
  have "write_functions fdir (x # fns) w = write_functions fdir fns ?w1"
    using first by (simp add: write_functions_def x then_run_def)
  with rest show ?case
    by (simp add: function_entries_def x)
qed

lemma function_entries_SomeD:
  assumes "map_of (rev (function_entries fdir fns)) p = Some n"
  shows "\<exists>t l. (t, l) \<in> set fns \<and> p = fdir @ [function_file t] \<and> n = File (function_text l)"
proof -
  from assms have "(p, n) \<in> set (function_entries fdir fns)"
    by (auto dest: map_of_SomeD)
  then show ?thesis
    by (auto simp: function_entries_def)
qed

lemma function_entries_None:
  assumes "\<And>t. p \<noteq> fdir @ [function_file t]"
  shows "map_of (rev (function_entries fdir fns)) p = None"
proof (cases "map_of (rev (function_entries fdir fns)) p")
  case None
  then show ?thesis .
next
  case (Some n)
  from function_entries_SomeD [OF this] assms show ?thesis by blast
qed

lemma main_not_function_file: "''main.mcfunction'' \<noteq> function_file t"
  by (simp add: function_file_def)

lemma write_datapack_fresh:
  assumes "fresh_target (files w) out name"
  shows "write_datapack v name out cmds w =
     (Inr (), w\<lparr>files := datapack_tree v name out cmds (files w)\<rparr>)"
proof -
  let ?fn = "if v then ''function'' else ''functions''"
  let ?d = "out @ [name]"
  let ?f = "out @ [name, ''data'', name, ?fn]"
  let ?G = "group_commands cmds"
  from assms have out: "node_at (files w) out = Some Dir"
    by (simp add: fresh_target_def)
  have none: "files w (out @ name # q) = None" for q
    using assms by (simp add: fresh_target_def datapack_dir_def)
  define fs1 where "fs1 = (files w)(?d \<mapsto> Dir)"
  define fs2 where "fs2 = fs1(?d @ [''pack.mcmeta''] \<mapsto> File (dumps meta_data))"
  define fs3a where "fs3a = fs2(?d @ [''data''] \<mapsto> Dir)"
  define fs3b where "fs3b = fs3a(?d @ [''data'', name] \<mapsto> Dir)"
  define fs3 where "fs3 = fs3b(?f \<mapsto> Dir)"
  define fs4 where "fs4 = fs3 ++ map_of (rev (function_entries ?f ?G))"
  define fs5 where "fs5 = fs4(?f @ [''main.mcfunction''] \<mapsto> File (main_text name ?G))"
  have "mkdir False ?d (files w) = Inr fs1"
    unfolding fs1_def using out none [of "[]"]
    by (intro mkdir_leaf) (simp_all add: butlast_append node_at_def)
  then have s1: "unless_exists ?d (on_files (mkdir False ?d)) w = (Inr (), w\<lparr>files := fs1\<rparr>)"
    using none [of "[]"]
    by (simp add: unless_exists_def path_exists_def node_at_def on_files_def)
  have "write_text (?d @ [''pack.mcmeta'']) (dumps meta_data) fs1 = Inr fs2"
    unfolding fs2_def using none [of "[''pack.mcmeta'']"]
    by (intro write_text_ok) (simp_all add: butlast_append node_at_def fs1_def)
  then have s2: "on_files (write_text (?d @ [''pack.mcmeta'']) (dumps meta_data))
      (w\<lparr>files := fs1\<rparr>) = (Inr (), w\<lparr>files := fs2\<rparr>)"
    by (simp add: on_files_def)
  have m1: "mkdir True (?d @ [''data'']) fs2 = Inr fs3a"
    unfolding fs3a_def using none [of "[''data'']"]
    by (intro mkdir_leaf) (simp_all add: butlast_append node_at_def fs2_def fs1_def)
  have m2: "mkdir True (?d @ [''data'', name]) fs2 = Inr fs3b"
    unfolding fs3b_def using none [of "[''data'', name]"] none [of "[''data'']"] m1
    by (intro mkdir_below) (simp_all add: butlast_append node_at_def fs3a_def fs2_def fs1_def)
  have "mkdir False ?f fs2 = Inr fs3"
    unfolding fs3_def
    using none [of "[''data'', name, ?fn]"] none [of "[''data'', name]"] m2
    by (intro mkdir_below) (simp_all add: butlast_append node_at_def fs3b_def fs3a_def fs2_def fs1_def)
  then have s3: "on_files (mkdir False ?f) (w\<lparr>files := fs2\<rparr>) = (Inr (), w\<lparr>files := fs3\<rparr>)"
    by (simp add: on_files_def)
  have dir3: "fs3 ?f = Some Dir"
    by (simp add: fs3_def)
  have file3: "fs3 (?f @ [x]) = None" for x
    using none [of "[''data'', name, ?fn, x]"]
    by (simp add: fs3_def fs3b_def fs3a_def fs2_def fs1_def)
  have s4: "write_functions ?f ?G (w\<lparr>files := fs3\<rparr>) = (Inr (), w\<lparr>files := fs4\<rparr>)"
    using write_functions_ok [of ?f "w\<lparr>files := fs3\<rparr>" ?G] dir3 file3
    by (simp add: fs4_def)
  have dir4: "fs4 ?f = Some Dir"
    using dir3 by (simp add: fs4_def map_add_def function_entries_None)
  have file4: "fs4 (?f @ [''main.mcfunction'']) = None"
    using file3 [of "''main.mcfunction''"] main_not_function_file
    by (simp add: fs4_def map_add_def function_entries_None)
  have "write_text (?f @ [''main.mcfunction'']) (main_text name ?G) fs4 = Inr fs5"
    unfolding fs5_def using dir4 file4
    by (intro write_text_ok) (simp_all add: butlast_append node_at_def)
  then have s5: "on_files (write_text (?f @ [''main.mcfunction'']) (main_text name ?G))
      (w\<lparr>files := fs4\<rparr>) = (Inr (), w\<lparr>files := fs5\<rparr>)"
    by (simp add: on_files_def)
  have tree: "datapack_tree v name out cmds (files w) = fs5"
    by (simp add: datapack_tree_def datapack_dir_def function_dir_def
        fs5_def fs4_def fs3_def fs3b_def fs3a_def fs2_def fs1_def)
  have "write_datapack v name out cmds w = (Inr (), w\<lparr>files := fs5\<rparr>)"
    using s1 s2 s3 s4 s5
    by (simp add: write_datapack_def datapack_dir_def function_dir_def then_run_def succeed_def)
  with tree show ?thesis by simp
qed

lemma zip_path_datapack_dir: "zip_path (datapack_dir out name) = archive_file out name"
  by (simp add: zip_path_def datapack_dir_def archive_file_def)



lemma tree_root: "datapack_tree v name out cmds fs (datapack_dir out name) = Some Dir"
  by (simp add: datapack_tree_def datapack_dir_def function_dir_def map_add_def
      function_entries_None)








lemma tree_outside:
  assumes "\<not> prefix (datapack_dir out name) p"
  shows "datapack_tree v name out cmds fs p = fs p"
proof -
  have below: "prefix (datapack_dir out name) (datapack_dir out name @ q)" for q
    by simp
  have "map_of (rev (function_entries (function_dir v out name) (group_commands cmds))) p = None"
  proof (rule function_entries_None)
    fix t
    show "p \<noteq> function_dir v out name @ [function_file t]"
      using assms below [of "[''data'', name, if v then ''function'' else ''functions'',
        function_file t]"]
      by (auto simp: function_dir_def)
  qed
  moreover have "p \<noteq> datapack_dir out name @ q" for q
    using assms below [of q] by auto
  from this [of "[]"] this [of "[''pack.mcmeta'']"] this [of "[''data'']"]
    this [of "[''data'', name]"]
    this [of "[''data'', name, if v then ''function'' else ''functions'']"]
    this [of "[''data'', name, if v then ''function'' else ''functions'', ''main.mcfunction'']"]
  have "p \<noteq> datapack_dir out name" "p \<noteq> datapack_dir out name @ [''pack.mcmeta'']"
    "p \<noteq> datapack_dir out name @ [''data'']" "p \<noteq> datapack_dir out name @ [''data'', name]"
    "p \<noteq> function_dir v out name" "p \<noteq> function_dir v out name @ [''main.mcfunction'']"
    by (simp_all add: function_dir_def)
  ultimately show ?thesis
    by (simp add: datapack_tree_def map_add_def)
qed

lemma keys_Nil_iff: "keys (group_commands cmds) = [] \<longleftrightarrow> cmds = []"
proof -
  have "set (keys (group_commands cmds)) = set (times_of cmds)"
    by (simp add: keys_group_commands set_first_seen)
  then have "keys (group_commands cmds) = [] \<longleftrightarrow> times_of cmds = []"
    by (metis set_empty)
  then show ?thesis by (simp add: times_of_def)
qed

lemma summary_empty: "summary name out [] w = (Inl ValueError, w)"
  by (simp add: summary_def then_run_def result_of_def group_commands_Nil keys_def)

lemma summary_nonempty:
  assumes "cmds \<noteq> []"
  shows "fst (summary name out cmds w) = Inr () \<and> files (snd (summary name out cmds w)) = files w"
proof -
  from assms obtain k ks where "keys (group_commands cmds) = k # ks"
    using keys_Nil_iff [of cmds] by (cases "keys (group_commands cmds)") auto
  then show ?thesis
    by (simp add: summary_def then_run_def result_of_def log_msg_def)
qed

lemma build_fresh:
  assumes "fresh_target (files w) out name" and "ops self off = Inr cmds"
  shows "fst (build ops ArchiveWritten self v off name out w)
           = (if cmds = [] then Inl ValueError else Inr None)"
    and "files (snd (build ops ArchiveWritten self v off name out w))
           = packed_files v name out cmds (files w)"
proof -
  let ?d = "datapack_dir out name"
  let ?tree = "datapack_tree v name out cmds (files w)"
  let ?w5 = "w\<lparr>files := ?tree\<rparr>"
  let ?w6 = "w\<lparr>files := ?tree(archive_file out name \<mapsto> Zip (subtree ?tree ?d))\<rparr>"
  let ?w7 = "w\<lparr>files := packed_files v name out cmds (files w)\<rparr>"
  have s1: "write_datapack v name out cmds w = (Inr (), ?w5)"
    using assms(1) by (rule write_datapack_fresh)
  have s2: "make_archive ArchiveWritten ?d ?d ?w5 = (Inr (), ?w6)"
    by (simp add: make_archive_def zip_path_datapack_dir)
  have "node_at (files ?w6) ?d = Some Dir"
    using tree_root [of v name out cmds "files w"]
    by (simp add: node_at_def datapack_dir_def archive_file_def)
  then have "rmtree ?d (files ?w6) = Inr (packed_files v name out cmds (files w))"
    by (simp add: rmtree_def packed_files_def)
  then have s3: "on_files (rmtree ?d) ?w6 = (Inr (), ?w7)"
    by (simp add: on_files_def)
  have run: "build ops ArchiveWritten self v off name out w =
      then_run (summary name out cmds) (\<lambda>_. succeed None) ?w7"
    using assms(2) s1 s2 s3
    by (simp add: build_def then_run_def result_of_def succeed_def split: prod.splits sum.splits)
  show "fst (build ops ArchiveWritten self v off name out w)
      = (if cmds = [] then Inl ValueError else Inr None)"
    using summary_nonempty [of cmds name out ?w7]
    by (cases "cmds = []")
      (auto simp: run then_run_def succeed_def summary_empty split: prod.splits sum.splits)
  show "files (snd (build ops ArchiveWritten self v off name out w))
      = packed_files v name out cmds (files w)"
    using summary_nonempty [of cmds name out ?w7]
    by (cases "cmds = []")
      (auto simp: run then_run_def succeed_def summary_empty split: prod.splits sum.splits)
qed

section \<open>The scheduling chain\<close>

text \<open>
  C1: for every ponder name, the command list of main.mcfunction is the provenance line
  followed by the line \<^verbatim>\<open>schedule function {ponder_name}:{t} {2*t + 1} append\<close> for each
  time \<open>t\<close> of the compiled commands, each time once (in the order of first occurrence),
  and by nothing else. So the list holds that line exactly once for every such \<open>t\<close>, and
  since the line determines \<open>t\<close>, it holds no other line for \<open>t\<close>.
\<close>

theorem C1_one_directive_per_time:
  "main_command_list ponder_name (group_commands cmds)
     = ''# Generated by creepe_ponder''
       # map (\<lambda>t. ''schedule function '' @ ponder_name @ '':'' @ str_int t @ '' ''
                  @ str_int (2 * t + 1) @ '' append'')
           (first_seen (times_of cmds))
   \<and> distinct (first_seen (times_of cmds))
   \<and> set (first_seen (times_of cmds)) = set (times_of cmds)
   \<and> (\<forall>t \<in> set (times_of cmds).
         count_list (main_command_list ponder_name (group_commands cmds))
           (''schedule function '' @ ponder_name @ '':'' @ str_int t @ '' ''
              @ str_int (2 * t + 1) @ '' append'') = 1)
   \<and> (\<forall>s t. ''schedule function '' @ ponder_name @ '':'' @ str_int s @ '' ''
                @ str_int (2 * s + 1) @ '' append''
              = ''schedule function '' @ ponder_name @ '':'' @ str_int t @ '' ''
                @ str_int (2 * t + 1) @ '' append'' \<longrightarrow> s = t)"
proof -
  have line: "''schedule function '' @ ponder_name @ '':'' @ str_int t @ '' ''
      @ str_int (2 * t + 1) @ '' append'' = schedule_line ponder_name t" for t
    by (simp add: schedule_line_def mult.commute)
  have a: "main_command_list ponder_name (group_commands cmds)
      = ''# Generated by creepe_ponder''
        # map (schedule_line ponder_name) (first_seen (times_of cmds))"
    by (simp add: main_command_list_eq keys_group_commands header_def)
  have b: "count_list (main_command_list ponder_name (group_commands cmds))
      (schedule_line ponder_name t) = 1" if "t \<in> set (times_of cmds)" for t
  proof -
    have "count_list (main_command_list ponder_name (group_commands cmds))
        (schedule_line ponder_name t)
        = count_list (map (schedule_line ponder_name) (keys (group_commands cmds)))
            (schedule_line ponder_name t)"
      using header_not_schedule_line [of ponder_name t]
      by (auto simp: main_command_list_eq)
    also have "\<dots> = count_list (keys (group_commands cmds)) t"
      by (rule count_list_map_inj) (rule schedule_line_inj)
    also have "\<dots> = 1"
      using that
      by (intro count_list_distinct)
        (simp_all add: keys_group_commands distinct_first_seen set_first_seen)
    finally show ?thesis .
  qed
  have c: "schedule_line ponder_name s = schedule_line ponder_name t \<longrightarrow> s = t" for s t
    by (blast dest: schedule_line_inj)
  have a': "main_command_list ponder_name (group_commands cmds)
     = ''# Generated by creepe_ponder''
       # map (\<lambda>t. ''schedule function '' @ ponder_name @ '':'' @ str_int t @ '' ''
                  @ str_int (2 * t + 1) @ '' append'')
           (first_seen (times_of cmds))"
    unfolding line by (rule a)
  have b': "\<forall>t \<in> set (times_of cmds).
         count_list (main_command_list ponder_name (group_commands cmds))
           (''schedule function '' @ ponder_name @ '':'' @ str_int t @ '' ''
              @ str_int (2 * t + 1) @ '' append'') = 1"
    unfolding line using b by blast
  have c': "\<forall>s t. ''schedule function '' @ ponder_name @ '':'' @ str_int s @ '' ''
                @ str_int (2 * s + 1) @ '' append''
              = ''schedule function '' @ ponder_name @ '':'' @ str_int t @ '' ''
                @ str_int (2 * t + 1) @ '' append'' \<longrightarrow> s = t"
    unfolding line using c by blast
  have d: "distinct (first_seen (times_of cmds))"
    by (rule distinct_first_seen)
  have e: "set (first_seen (times_of cmds)) = set (times_of cmds)"
    by (rule set_first_seen)
  show ?thesis
    by (intro conjI; fact)
qed

theorem C1_one_directive_per_time_witness:
  "main_command_list ''ponders''
     (group_commands [(5, ''setblock 1 0 0 minecraft:stone''), (0, ''say hi''), (5, ''say bye'')])
     = [''# Generated by creepe_ponder'', ''schedule function ponders:5 11 append'',
        ''schedule function ponders:0 1 append'']
   \<and> 5 \<in> set (times_of [(5, ''setblock 1 0 0 minecraft:stone''), (0, ''say hi''), (5, ''say bye'')])
   \<and> count_list (main_command_list ''ponders''
        (group_commands [(5, ''setblock 1 0 0 minecraft:stone''), (0, ''say hi''), (5, ''say bye'')]))
        ''schedule function ponders:5 11 append'' = 1"
proof -
  let ?cs = "[(5, ''setblock 1 0 0 minecraft:stone''), (0, ''say hi''), (5, ''say bye'')]
    :: (int \<times> string) list"
  note all = C1_one_directive_per_time [of "''ponders''" ?cs]
  have h: "5 \<in> set (times_of ?cs)"
    by (simp add: times_of_def)
  have s: "str_int 5 = ''5''" "str_int 11 = ''11''" "str_int 0 = ''0''" "str_int 1 = ''1''"
    by code_simp+
  have f: "first_seen (times_of ?cs) = [5, 0]"
    by (simp add: times_of_def)
  from all have "main_command_list ''ponders'' (group_commands ?cs)
      = ''# Generated by creepe_ponder''
        # map (\<lambda>t. ''schedule function '' @ ''ponders'' @ '':'' @ str_int t @ '' ''
                  @ str_int (2 * t + 1) @ '' append'') (first_seen (times_of ?cs))"
    by blast
  then have a: "main_command_list ''ponders'' (group_commands ?cs)
      = [''# Generated by creepe_ponder'', ''schedule function ponders:5 11 append'',
         ''schedule function ponders:0 1 append'']"
    by (simp add: f s)
  from all h have "count_list (main_command_list ''ponders'' (group_commands ?cs))
      (''schedule function '' @ ''ponders'' @ '':'' @ str_int 5 @ '' ''
         @ str_int (2 * 5 + 1) @ '' append'') = 1"
    by blast
  then have b: "count_list (main_command_list ''ponders'' (group_commands ?cs))
      ''schedule function ponders:5 11 append'' = 1"
    by (simp add: s)
  from a h b show ?thesis by blast
qed

section \<open>The buckets\<close>

text \<open>
  C2: a sequence of compiled (time, text) pairs with k distinct time values is grouped
  into exactly k buckets, one for each time value; the list stored for time \<open>t\<close> is the
  provenance line followed by exactly the texts of the pairs whose time is \<open>t\<close>, in the
  order of the sequence; no other time has a bucket.
\<close>

theorem C2_buckets:
  "length (group_commands cmds) = card (set (times_of cmds))
   \<and> distinct (keys (group_commands cmds))
   \<and> (\<forall>t \<in> set (times_of cmds).
         bucket (group_commands cmds) t = Some (header # texts_at t cmds))
   \<and> (\<forall>t. t \<notin> set (times_of cmds) \<longrightarrow> bucket (group_commands cmds) t = None)"
  by (simp add: length_group_commands keys_group_commands distinct_first_seen
      bucket_group_commands)

theorem C2_buckets_witness:
  "length (group_commands [(5, ''a''), (0, ''b''), (5, ''c'')]) = 2
   \<and> 5 \<in> set (times_of [(5, ''a''), (0, ''b''), (5, ''c'')])
   \<and> bucket (group_commands [(5, ''a''), (0, ''b''), (5, ''c'')]) 5 = Some [header, ''a'', ''c'']
   \<and> 7 \<notin> set (times_of [(5, ''a''), (0, ''b''), (5, ''c'')])
   \<and> bucket (group_commands [(5, ''a''), (0, ''b''), (5, ''c'')]) 7 = None"
proof -
  let ?cs = "[(5, ''a''), (0, ''b''), (5, ''c'')] :: (int \<times> string) list"
  note all = C2_buckets [of ?cs]
  have h5: "5 \<in> set (times_of ?cs)" and h7: "7 \<notin> set (times_of ?cs)"
    by (simp_all add: times_of_def)
  have "card (set (times_of ?cs)) = 2"
    by (simp add: times_of_def card_insert_if)
  with all have len: "length (group_commands ?cs) = 2" by simp
  from all h5 have b5: "bucket (group_commands ?cs) 5 = Some (header # texts_at 5 ?cs)"
    by blast
  from all h7 have b7: "bucket (group_commands ?cs) 7 = None"
    by blast
  from b5 have "bucket (group_commands ?cs) 5 = Some [header, ''a'', ''c'']"
    by (simp add: texts_at_def)
  with len h5 h7 b7 show ?thesis by simp
qed

section \<open>The order of the buckets and of the chain\<close>

text \<open>
  C3, as stated, fails: the times 0, 1, 0 are not in non-decreasing order, and yet the
  buckets and the chain come out in the numerically sorted order 0, 1.
\<close>

theorem C3_sorted_chain_counterexample:
  "\<not> sorted (times_of [(0, ''a''), (1, ''b''), (0, ''c'')])
   \<and> keys (group_commands [(0, ''a''), (1, ''b''), (0, ''c'')]) = [0, 1]
   \<and> sorted (keys (group_commands [(0, ''a''), (1, ''b''), (0, ''c'')]))
   \<and> main_command_list ''ponders'' (group_commands [(0, ''a''), (1, ''b''), (0, ''c'')])
       = [header, ''schedule function ponders:0 1 append'',
          ''schedule function ponders:1 3 append'']"
proof -
  have k: "keys (group_commands [(0, ''a''), (1, ''b''), (0, ''c'')]) = [0, 1]"
    by (simp add: keys_group_commands times_of_def)
  have l0: "schedule_line ''ponders'' 0 = ''schedule function ponders:0 1 append''"
    by code_simp
  have l1: "schedule_line ''ponders'' 1 = ''schedule function ponders:1 3 append''"
    by code_simp
  show ?thesis
    by (simp add: main_command_list_eq k l0 l1) (simp add: times_of_def)
qed

text \<open>
  C3, amended: the buckets are created in the order in which their time values are first
  seen, and the scheduling lines of main.mcfunction follow the provenance line in that
  same order; when the input is in non-decreasing time order the chain is numerically
  sorted, and otherwise it need not be (the times 1, 0 give the chain 1, 0).
\<close>

theorem C3_first_seen_order:
  "keys (group_commands cmds) = first_seen (times_of cmds)
   \<and> main_command_list ponder_name (group_commands cmds)
       = header # map (schedule_line ponder_name) (first_seen (times_of cmds))
   \<and> (sorted (times_of cmds) \<longrightarrow> sorted (keys (group_commands cmds)))
   \<and> keys (group_commands [(1, ''a''), (0, ''b'')]) = [1, 0]"
proof -
  have "keys (group_commands [(1, ''a''), (0, ''b'')]) = [1, 0]"
    by (simp add: keys_group_commands times_of_def)
  then show ?thesis
    by (simp add: keys_group_commands main_command_list_eq sorted_first_seen)
qed

theorem C3_first_seen_order_witness:
  "sorted (times_of [(0, ''a''), (0, ''b''), (3, ''c'')])
   \<and> keys (group_commands [(0, ''a''), (0, ''b''), (3, ''c'')]) = [0, 3]
   \<and> sorted (keys (group_commands [(0, ''a''), (0, ''b''), (3, ''c'')]))"
  using C3_first_seen_order [of "[(0, ''a''), (0, ''b''), (3, ''c'')]" "''ponders''"]
  by (simp add: times_of_def)

section \<open>The rendered files\<close>

text \<open>
  C6: the text rendered for the bucket of a time \<open>t\<close> (a bucket holds at least one
  command) is the provenance line \<^verbatim>\<open># Generated by creepe_ponder\<close> followed by each of
  the bucket's command texts, in order, each after a line feed: one provenance line,
  then the texts joined by line feeds. The text rendered for main.mcfunction is the same
  provenance line followed by each scheduling line, in bucket order, each after a line
  feed (the provenance line alone when there is no bucket).
\<close>

theorem C6_rendered_text:
  "(\<forall>t \<in> set (times_of cmds). \<exists>command_list.
       bucket (group_commands cmds) t = Some command_list
       \<and> texts_at t cmds \<noteq> []
       \<and> function_text command_list
           = ''# Generated by creepe_ponder''
             @ concat (map (\<lambda>c. CHR 0x0A # c) (texts_at t cmds)))
   \<and> main_text ponder_name (group_commands cmds)
       = ''# Generated by creepe_ponder''
         @ concat (map (\<lambda>t. CHR 0x0A # (''schedule function '' @ ponder_name @ '':''
                     @ str_int t @ '' '' @ str_int (2 * t + 1) @ '' append''))
             (first_seen (times_of cmds)))"
proof -
  have a: "function_text (header # texts_at t cmds)
      = ''# Generated by creepe_ponder'' @ concat (map (\<lambda>c. CHR 0x0A # c) (texts_at t cmds))"
    for t
    by (simp add: function_text_def newline_def join_lines header_def)
  have b: "main_text ponder_name (group_commands cmds)
      = ''# Generated by creepe_ponder''
         @ concat (map (\<lambda>t. CHR 0x0A # (''schedule function '' @ ponder_name @ '':''
                     @ str_int t @ '' '' @ str_int (2 * t + 1) @ '' append''))
             (first_seen (times_of cmds)))"
    by (simp add: main_text_def main_command_list_eq keys_group_commands newline_def
        join_lines header_def comp_def schedule_line_def mult.commute)
  have c: "\<forall>t \<in> set (times_of cmds). \<exists>command_list.
       bucket (group_commands cmds) t = Some command_list
       \<and> texts_at t cmds \<noteq> []
       \<and> function_text command_list
           = ''# Generated by creepe_ponder''
             @ concat (map (\<lambda>c. CHR 0x0A # c) (texts_at t cmds))"
    using a by (simp add: bucket_group_commands texts_at_not_Nil)
  from b c show ?thesis by blast
qed

theorem C6_rendered_text_witness:
  "5 \<in> set (times_of [(5, ''a''), (0, ''b''), (5, ''c'')])
   \<and> (\<exists>command_list. bucket (group_commands [(5, ''a''), (0, ''b''), (5, ''c'')]) 5
         = Some command_list
       \<and> function_text command_list = ''# Generated by creepe_ponder\<newline>a\<newline>c'')
   \<and> main_text ''ponders'' (group_commands [(5, ''a''), (0, ''b''), (5, ''c'')])
       = ''# Generated by creepe_ponder\<newline>schedule function ponders:5 11 append\<newline>schedule function ponders:0 1 append''
   \<and> main_text ''ponders'' (group_commands []) = ''# Generated by creepe_ponder''"
proof -
  let ?cs = "[(5, ''a''), (0, ''b''), (5, ''c'')] :: (int \<times> string) list"
  note full = C6_rendered_text [of ?cs "''ponders''"]
  note none = C6_rendered_text [of "[]" "''ponders''"]
  have h5: "5 \<in> set (times_of ?cs)"
    by (simp add: times_of_def)
  have s: "str_int 5 = ''5''" "str_int 11 = ''11''" "str_int 0 = ''0''" "str_int 1 = ''1''"
    by code_simp+
  have f: "first_seen (times_of ?cs) = [5, 0]" "first_seen (times_of []) = []"
    by (simp_all add: times_of_def)
  from full h5 obtain command_list where
    "bucket (group_commands ?cs) 5 = Some command_list"
    "function_text command_list
       = ''# Generated by creepe_ponder'' @ concat (map (\<lambda>c. CHR 0x0A # c) (texts_at 5 ?cs))"
    by blast
  then have a: "\<exists>command_list. bucket (group_commands ?cs) 5 = Some command_list
      \<and> function_text command_list = ''# Generated by creepe_ponder\<newline>a\<newline>c''"
    by (simp add: texts_at_def)
  from full have "main_text ''ponders'' (group_commands ?cs)
      = ''# Generated by creepe_ponder''
         @ concat (map (\<lambda>t. CHR 0x0A # (''schedule function '' @ ''ponders'' @ '':''
                     @ str_int t @ '' '' @ str_int (2 * t + 1) @ '' append''))
             (first_seen (times_of ?cs)))"
    by blast
  then have b: "main_text ''ponders'' (group_commands ?cs)
      = ''# Generated by creepe_ponder\<newline>schedule function ponders:5 11 append\<newline>schedule function ponders:0 1 append''"
    by (simp add: f s)
  from none have "main_text ''ponders'' (group_commands [])
      = ''# Generated by creepe_ponder''
         @ concat (map (\<lambda>t. CHR 0x0A # (''schedule function '' @ ''ponders'' @ '':''
                     @ str_int t @ '' '' @ str_int (2 * t + 1) @ '' append''))
             (first_seen (times_of [])))"
    by blast
  then have c: "main_text ''ponders'' (group_commands []) = ''# Generated by creepe_ponder''"
    by (simp add: f)
  from h5 a b c show ?thesis by blast
qed

section \<open>The constructor\<close>

text \<open>
  C9: for every integer size, the constructor returns (it does not raise) an object with
  that size and an empty command list; when the size is above 8 and not a multiple of 3
  the only effect is one entry of level CRITICAL in the log, and otherwise there is no
  effect at all.
\<close>

theorem C9_constructor_never_raises:
  "Ponder sz w =
     (Inr \<lparr>size_p = sz, commands = []\<rparr>,
      if sz > 8 \<and> sz mod 3 \<noteq> 0
      then w\<lparr>logged := logged w @ [(CRITICAL, SizeNotMultipleOf3)]\<rparr> else w)"
  by (simp add: Ponder_def then_run_def log_msg_def succeed_def)

theorem C9_constructor_never_raises_witness:
  "Ponder 10 \<lparr>files = Map.empty, logged = []\<rparr> =
     (Inr \<lparr>size_p = 10, commands = []\<rparr>,
      \<lparr>files = Map.empty, logged = [(CRITICAL, SizeNotMultipleOf3)]\<rparr>)"
  using C9_constructor_never_raises [of 10 "\<lparr>files = Map.empty, logged = []\<rparr>"]
  by simp

section \<open>Properties of compile\<close>

lemma compile_proceed:
  assumes "\<not> path_exists (files w) (archive_file out name) \<or> lower answer = ''y''"
  shows "compile ops answer outcome self v off name out w =
     build ops outcome self v off name out
       (w\<lparr>logged := logged w @ (INFO, Compiling) # (DEBUG, Arguments v off name out)
            # (if path_exists (files w) (archive_file out name)
               then [(WARNING, ArchiveExists name)] else [])\<rparr>)"
  using assms by (auto simp: compile_def then_run_def log_msg_def)


lemma compile_fresh:
  assumes "fresh_target (files w) out name" and "ops self off = Inr cmds"
    and "\<not> path_exists (files w) (archive_file out name) \<or> lower answer = ''y''"
  shows "fst (compile ops answer ArchiveWritten self v off name out w)
           = (if cmds = [] then Inl ValueError else Inr None)"
    and "files (snd (compile ops answer ArchiveWritten self v off name out w))
           = packed_files v name out cmds (files w)"
  using assms build_fresh [of _ out name ops self off cmds v]
  by (simp_all add: compile_proceed)

lemma fresh_empty: "fresh_target Map.empty [] name"
  by (simp add: fresh_target_def node_at_def)

lemma lower_char_y:
  assumes "lower_char c = CHR ''y''"
  shows "c = CHR ''y'' \<or> c = CHR ''Y''"
proof (cases "65 \<le> (of_char c :: nat) \<and> (of_char c :: nat) \<le> 90")
  case True
  with assms have "char_of (of_char c + 32 :: nat) = CHR ''y''"
    by (simp add: lower_char_def)
  then have "(of_char (char_of (of_char c + 32 :: nat)) :: nat) = of_char (CHR ''y'')"
    by simp
  with True have "(of_char c :: nat) = 89"
    by simp
  then have "char_of (of_char c :: nat) = char_of (89 :: nat)"
    by simp
  moreover have "char_of (89 :: nat) = CHR ''Y''"
    by code_simp
  ultimately show ?thesis by simp
next
  case False
  with assms show ?thesis by (simp add: lower_char_def)
qed

lemma lower_eq_y: "lower answer = ''y'' \<longleftrightarrow> answer = ''y'' \<or> answer = ''Y''"
proof
  assume "lower answer = ''y''"
  then obtain c where "answer = [c]" and "lower_char c = CHR ''y''"
    by (auto simp: lower_def)
  with lower_char_y show "answer = ''y'' \<or> answer = ''Y''"
    by auto
next
  have "lower ''y'' = ''y''" and "lower ''Y'' = ''y''"
    by code_simp+
  moreover assume "answer = ''y'' \<or> answer = ''Y''"
  ultimately show "lower answer = ''y''" by auto
qed

section \<open>Declining the overwrite\<close>



section \<open>The value returned\<close>

text \<open>
  C4: the claim (and the docstring, "return: the output path") says that a successful
  run returns the path of the archive. The method has no \<^verbatim>\<open>return\<close> after the summary,
  so a successful run returns \<^verbatim>\<open>None\<close>: here one placement at time 5 is compiled into
  an empty directory, the archive \<^verbatim>\<open>ponders.zip\<close> is produced, and the value returned is
  \<^verbatim>\<open>None\<close>.
\<close>

theorem C4_successful_run_returns_None:
  "fst (compile (\<lambda>_ _. Inr [(5, ''setblock 1 0 0 minecraft:stone'')]) [] ArchiveWritten
         \<lparr>size_p = 3, commands = [Place 5 (0, 0, 0) ''stone'' [] []]\<rparr> True (1, 0, 0)
         ''ponders'' [] \<lparr>files = Map.empty, logged = []\<rparr>) = Inr None
   \<and> (\<exists>z. files (snd (compile (\<lambda>_ _. Inr [(5, ''setblock 1 0 0 minecraft:stone'')]) []
         ArchiveWritten \<lparr>size_p = 3, commands = [Place 5 (0, 0, 0) ''stone'' [] []]\<rparr> True
         (1, 0, 0) ''ponders'' [] \<lparr>files = Map.empty, logged = []\<rparr>)) [''ponders.zip'']
       = Some (Zip z))"
proof -
  let ?w = "\<lparr>files = Map.empty, logged = []\<rparr>"
  let ?ops = "\<lambda>(_ :: ponder) (_ :: pos). Inr [(5 :: int, ''setblock 1 0 0 minecraft:stone'')]
    :: exn + (int \<times> string) list"
  let ?self = "\<lparr>size_p = 3, commands = [Place 5 (0, 0, 0) ''stone'' [] []]\<rparr>"
  have h1: "fresh_target (files ?w) [] ''ponders''"
    by (simp add: fresh_empty)
  have h2: "?ops ?self (1, 0, 0) = Inr [(5, ''setblock 1 0 0 minecraft:stone'')]"
    by simp
  have h3: "\<not> path_exists (files ?w) (archive_file [] ''ponders'') \<or> lower [] = ''y''"
    by (simp add: path_exists_def node_at_def archive_file_def)
  from compile_fresh [where ops = ?ops and self = ?self and off = "(1, 0, 0)"
      and w = ?w and out = "[]" and name = "''ponders''" and answer = "[]" and v = True,
      OF h1 h2 h3]
  show ?thesis
    by (simp add: packed_files_def archive_file_def datapack_dir_def)
qed

section \<open>The layout of the pack\<close>



section \<open>Properties of the steps on any file system\<close>




















lemma rerun_on_existing_tree_raises:
  assumes "files w (datapack_dir out name) = Some Dir"
    and "files w (datapack_dir out name @ [''pack.mcmeta'']) \<noteq> Some Dir"
    and "files w (function_dir v out name) \<noteq> None"
  shows "fst (write_datapack v name out cmds w) = Inl FileExistsError"
proof -
  let ?d = "datapack_dir out name"
  let ?f = "function_dir v out name"
  let ?w2 = "w\<lparr>files := (files w)(?d @ [''pack.mcmeta''] \<mapsto> File (dumps meta_data))\<rparr>"
  have s1: "unless_exists ?d (on_files (mkdir False ?d)) w = (Inr (), w)"
    using assms(1) by (simp add: unless_exists_def path_exists_def node_at_def)
  have "write_text (?d @ [''pack.mcmeta'']) (dumps meta_data) (files w) = Inr (files ?w2)"
    using assms(1,2) by (simp add: write_text_def node_at_def datapack_dir_def butlast_append)
  then have s2: "on_files (write_text (?d @ [''pack.mcmeta'']) (dumps meta_data)) w
      = (Inr (), ?w2)"
    by (simp add: on_files_def)
  have "node_at (files ?w2) ?f \<noteq> None"
    using assms(3) by (simp add: node_at_def function_dir_def datapack_dir_def)
  then have "mkdir False ?f (files ?w2) = Inl FileExistsError"
    by (simp add: mkdir.simps [of False ?f] os_mkdir_def)
  then have s3: "on_files (mkdir False ?f) ?w2 = (Inl FileExistsError, ?w2)"
    by (simp add: on_files_def)
  show ?thesis
    using s1 s2 s3 by (simp add: write_datapack_def then_run_def)
qed

section \<open>The working tree after the archive step\<close>



section \<open>No commands\<close>



end
